theory Spec2Isabelle
  imports Complex_Main "HOL-Library.AList"
begin

section \<open>The JavaScript built-ins used by the check-in engine\<close>

text \<open>
  The engine (\<^verbatim>\<open>server/logic.js\<close>, \<^verbatim>\<open>server/time.js\<close>) relies on a handful of
  library operations: string trimming, slicing and padding, number printing, and the UTC
  accessors of \<^verbatim>\<open>Date\<close>. They are written out here as executable functions.

  Strings are lists of 8-bit characters, read as the Latin-1 code units of a JavaScript
  string. A value that may be \<^verbatim>\<open>undefined\<close> or \<^verbatim>\<open>null\<close> is an \<open>option\<close>: an
  id, a name and a note are each a string or absent.
\<close>

subsection \<open>Strings\<close>

definition isWhiteSpace :: "char \<Rightarrow> bool" where
  "isWhiteSpace c = (c = CHR 0x09 \<or> c = CHR 0x0A \<or> c = CHR 0x0B \<or> c = CHR 0x0C
     \<or> c = CHR 0x0D \<or> c = CHR 0x20 \<or> c = CHR 0xA0)"

definition trim :: "string \<Rightarrow> string" where
  \<comment> \<open>\<^verbatim>\<open>s.trim()\<close>\<close>
  "trim s = rev (dropWhile isWhiteSpace (rev (dropWhile isWhiteSpace s)))"

definition slice0 :: "nat \<Rightarrow> string \<Rightarrow> string" where
  \<comment> \<open>\<^verbatim>\<open>s.slice(0, n)\<close>\<close>
  "slice0 n s = take n s"

definition padStart :: "nat \<Rightarrow> char \<Rightarrow> string \<Rightarrow> string" where
  \<comment> \<open>\<^verbatim>\<open>s.padStart(n, c)\<close> for a one-character pad string\<close>
  "padStart n c s = replicate (n - length s) c @ s"

definition truthy :: "string option \<Rightarrow> bool" where
  \<comment> \<open>a string, \<^verbatim>\<open>null\<close> or \<^verbatim>\<open>undefined\<close> in a boolean position: only a non-empty
      string counts as true\<close>
  "truthy v = (case v of None \<Rightarrow> False | Some s \<Rightarrow> s \<noteq> [])"

definition orDefault :: "string option \<Rightarrow> string \<Rightarrow> string" where
  \<comment> \<open>\<^verbatim>\<open>String(v || d)\<close>\<close>
  "orDefault v d = (case v of None \<Rightarrow> d | Some s \<Rightarrow> if s = [] then d else s)"

subsection \<open>Numbers\<close>

text \<open>
  A number is a finite value, \<^verbatim>\<open>NaN\<close> or an infinity. No arithmetic is done on
  coordinates, so a finite double is represented by the real it denotes. Integer-valued
  results that may be \<^verbatim>\<open>NaN\<close> (the accessors of an invalid date) are \<open>int option\<close>.
  A coordinate of a submitted location is a number, \<^verbatim>\<open>null\<close> or missing, and
  \<open>Number\<close> is the conversion \<^verbatim>\<open>Number(input.lat)\<close> applies to it.
\<close>

datatype jsnumber = Finite real | NaN | PosInfinity | NegInfinity

datatype jsvalue = Undefined | Null | Num jsnumber

fun Number :: "jsvalue \<Rightarrow> jsnumber" where
  "Number Undefined = NaN"
| "Number Null = Finite 0"
| "Number (Num n) = n"

fun isFinite :: "jsnumber \<Rightarrow> bool" where
  "isFinite (Finite x) = True"
| "isFinite NaN = False"
| "isFinite PosInfinity = False"
| "isFinite NegInfinity = False"

definition digitChar :: "nat \<Rightarrow> char" where
  "digitChar n = ''0123456789'' ! n"

fun natToString :: "nat \<Rightarrow> string" where
  "natToString n =
     (if n < 10 then [digitChar n] else natToString (n div 10) @ [digitChar (n mod 10)])"

declare natToString.simps [simp del]

definition numberToString :: "int option \<Rightarrow> string" where
  \<comment> \<open>\<^verbatim>\<open>String(n)\<close> for an integer-valued number or \<^verbatim>\<open>NaN\<close>\<close>
  "numberToString n =
     (case n of
        None \<Rightarrow> ''NaN''
      | Some i \<Rightarrow> if i < 0 then ''-'' @ natToString (nat (- i)) else natToString (nat i))"

subsection \<open>Dates\<close>

text \<open>
  A \<^verbatim>\<open>Date\<close> holds a time value: milliseconds since 1970-01-01T00:00:00Z, or
  \<^verbatim>\<open>NaN\<close> for an invalid date (\<open>None\<close>). The year, month and day of a time value
  follow the proleptic Gregorian calendar. They are computed from the day number by
  counting in years that start on 1 March, grouped into 400-year eras, centuries and
  four-year cycles.
\<close>

type_synonym jsdate = "int option"

definition msPerDay :: int where
  "msPerDay = 86400000"

definition Day :: "int \<Rightarrow> int" where
  "Day t = t div msPerDay"

definition TimeWithinDay :: "int \<Rightarrow> int" where
  "TimeWithinDay t = t mod msPerDay"

definition eraOf :: "int \<Rightarrow> int" where
  "eraOf n = (n + 719468) div 146097"

definition dayInEra :: "int \<Rightarrow> int" where
  "dayInEra n = (n + 719468) mod 146097"

definition centuryInEra :: "int \<Rightarrow> int" where
  "centuryInEra e = min (e div 36524) 3"

definition dayInCentury :: "int \<Rightarrow> int" where
  "dayInCentury e = e - 36524 * centuryInEra e"

definition yearInCycle :: "int \<Rightarrow> int" where
  "yearInCycle dc = min ((dc mod 1461) div 365) 3"

definition dayInYear :: "int \<Rightarrow> int" where
  "dayInYear dc = dc mod 1461 - 365 * yearInCycle dc"

definition marchDay :: "int \<Rightarrow> int" where
  \<comment> \<open>days since the last 1 March, for a day number\<close>
  "marchDay n = dayInYear (dayInCentury (dayInEra n))"

definition marchYear :: "int \<Rightarrow> int" where
  \<comment> \<open>the year in which that 1 March lies\<close>
  "marchYear n =
     400 * eraOf n + 100 * centuryInEra (dayInEra n)
       + 4 * (dayInCentury (dayInEra n) div 1461) + yearInCycle (dayInCentury (dayInEra n))"

definition marchMonth :: "int \<Rightarrow> int" where
  \<comment> \<open>months since March, from the days since 1 March\<close>
  "marchMonth doy = (5 * doy + 2) div 153"

definition dayInMonth :: "int \<Rightarrow> int" where
  "dayInMonth doy = doy - (153 * marchMonth doy + 2) div 5 + 1"

definition YearFromTime :: "int \<Rightarrow> int" where
  "YearFromTime t =
     marchYear (Day t) + (if marchMonth (marchDay (Day t)) < 10 then 0 else 1)"

definition MonthFromTime :: "int \<Rightarrow> int" where
  \<comment> \<open>0 for January up to 11 for December\<close>
  "MonthFromTime t =
     (let mp = marchMonth (marchDay (Day t)) in if mp < 10 then mp + 2 else mp - 10)"

definition DateFromTime :: "int \<Rightarrow> int" where
  "DateFromTime t = dayInMonth (marchDay (Day t))"

definition TimeClip :: "int \<Rightarrow> jsdate" where
  "TimeClip v = (if \<bar>v\<bar> > 8640000000000000 then None else Some v)"

definition getUTCFullYear :: "jsdate \<Rightarrow> int option" where
  "getUTCFullYear d = map_option YearFromTime d"

definition getUTCMonth :: "jsdate \<Rightarrow> int option" where
  "getUTCMonth d = map_option MonthFromTime d"

definition getUTCDate :: "jsdate \<Rightarrow> int option" where
  "getUTCDate d = map_option DateFromTime d"

definition setUTCDate :: "jsdate \<Rightarrow> int option \<Rightarrow> jsdate" where
  \<comment> \<open>the day of the month is replaced; a day outside the month carries over\<close>
  "setUTCDate d dt =
     (case (d, dt) of
        (Some t, Some n) \<Rightarrow>
          TimeClip ((Day t - DateFromTime t + n) * msPerDay + TimeWithinDay t)
      | _ \<Rightarrow> None)"

definition toISOString :: "int \<Rightarrow> string" where
  \<comment> \<open>of a valid date: \<^verbatim>\<open>YYYY-MM-DDTHH:mm:ss.sssZ\<close>, the year with sign and six digits
      outside 0..9999\<close>
  "toISOString t =
     (let y = YearFromTime t;
          year = (if 0 \<le> y \<and> y \<le> 9999 then padStart 4 CHR ''0'' (natToString (nat y))
                  else (if y < 0 then ''-'' else ''+'') @ padStart 6 CHR ''0'' (natToString (nat \<bar>y\<bar>)));
          two = (\<lambda>n. padStart 2 CHR ''0'' (natToString (nat n)))
      in year @ ''-'' @ two (MonthFromTime t + 1) @ ''-'' @ two (DateFromTime t)
         @ ''T'' @ two ((t div 3600000) mod 24) @ '':'' @ two ((t div 60000) mod 60)
         @ '':'' @ two ((t div 1000) mod 60)
         @ ''.'' @ padStart 3 CHR ''0'' (natToString (nat (t mod 1000))) @ ''Z'')"

section \<open>Day keys (\<^verbatim>\<open>server/time.js\<close>)\<close>

definition pad2 :: "int option \<Rightarrow> string" where
  "pad2 n = padStart 2 CHR ''0'' (numberToString n)"

definition utcDayKey :: "jsdate \<Rightarrow> string" where
  "utcDayKey date =
     (let y = getUTCFullYear date;
          m = pad2 (map_option (\<lambda>i. i + 1) (getUTCMonth date));
          d = pad2 (getUTCDate date)
      in numberToString y @ ''-'' @ m @ ''-'' @ d)"

definition utcYesterdayDayKey :: "jsdate \<Rightarrow> string" where
  "utcYesterdayDayKey date =
     (let d = setUTCDate date (map_option (\<lambda>i. i - 1) (getUTCDate date))
      in utcDayKey d)"

definition isOlderThanYesterdayDayKey :: "string option \<Rightarrow> jsdate \<Rightarrow> bool" where
  "isOlderThanYesterdayDayKey lastDayKey now =
     (if \<not> truthy lastDayKey then False
      else
        let yesterdayKey = utcYesterdayDayKey now;
            todayKey = utcDayKey now
        in lastDayKey \<noteq> Some todayKey \<and> lastDayKey \<noteq> Some yesterdayKey)"

section \<open>The participant registry (\<^verbatim>\<open>server/state.js\<close>, \<^verbatim>\<open>server/logic.js\<close>)\<close>

subsection \<open>Data\<close>

record location =
  lat :: jsnumber
  lng :: jsnumber

record locationInput =
  in_lat :: jsvalue
  in_lng :: jsvalue

record historyEntry =
  e_dayKey :: string
  e_at :: string
  e_location :: "location option"
  e_note :: "string option"

record dangerZoneRecord =
  dz_id :: string
  dz_type :: string
  dz_reason :: string
  dz_userId :: string
  dz_name :: string
  dz_location :: "location option"
  dz_lastSeenAt :: string

datatype status = Unknown | Ok | Missing

record user =
  u_id :: string
  u_name :: string
  streak :: int
  lastCheckInAt :: "int option"
  lastCheckInDayKey :: "string option"
  lastKnownLocation :: "location option"
  checkInHistory :: "historyEntry list"
  status :: status
  missingSince :: "int option"
  dangerZone :: "dangerZoneRecord option"

text \<open>
  \<^verbatim>\<open>state.users\<close> is a \<^verbatim>\<open>Map\<close> from ids to participant objects: an association list
  in insertion order, read with \<^const>\<open>map_of\<close> and written with \<^const>\<open>AList.update\<close>
  (an existing key keeps its position, a new key goes to the end). Each participant object
  is stored under one key only, so a mutation of the object is a write under that key.

  \<^verbatim>\<open>state.makeId\<close> draws random identifiers. The sequence of identifiers it will
  return is \<open>makeId\<close>, and \<open>idCalls\<close> counts the draws made so far. The chat, alert and
  camp collections of the state are not touched by the engine and are left out.
\<close>

record state =
  users :: "(string \<times> user) list"
  makeId :: "nat \<Rightarrow> string"
  idCalls :: nat

definition createInitialState :: "(nat \<Rightarrow> string) \<Rightarrow> state" where
  "createInitialState mk = \<lparr>users = [], makeId = mk, idCalls = 0\<rparr>"

record checkInPayload =
  p_userId :: "string option"
  p_name :: "string option"
  p_location :: "locationInput option"
  p_note :: "string option"

datatype error = Error string

subsection \<open>Operations\<close>

definition asLocation :: "locationInput option \<Rightarrow> location option" where
  "asLocation input =
     (case input of
        None \<Rightarrow> None
      | Some i \<Rightarrow>
          let la = Number (in_lat i); ln = Number (in_lng i)
          in if \<not> isFinite la \<or> \<not> isFinite ln then None else Some \<lparr>lat = la, lng = ln\<rparr>)"

definition orNow :: "int option \<Rightarrow> int \<Rightarrow> int" where
  \<comment> \<open>\<^verbatim>\<open>user.lastCheckInAt || now\<close>: a date object is never falsy\<close>
  "orNow d now = (case d of None \<Rightarrow> now | Some t \<Rightarrow> t)"

definition markMissing :: "state \<Rightarrow> user \<Rightarrow> int \<Rightarrow> string \<Rightarrow> state \<times> user" where
  "markMissing st u now reason =
     (if status u = Missing then (st, u)
      else
        let u1 = u\<lparr>status := Missing\<rparr>;
            u2 = u1\<lparr>missingSince := Some (orNow (lastCheckInAt u1) now)\<rparr>
        in case lastKnownLocation u2 of
             Some l \<Rightarrow>
               (st\<lparr>idCalls := idCalls st + 1\<rparr>,
                u2\<lparr>dangerZone := Some
                  \<lparr>dz_id = makeId st (idCalls st), dz_type = ''danger-zone'',
                   dz_reason = reason, dz_userId = u_id u2, dz_name = u_name u2,
                   dz_location = Some l,
                   dz_lastSeenAt = toISOString (orNow (lastCheckInAt u2) now)\<rparr>\<rparr>)
           | None \<Rightarrow>
               (st\<lparr>idCalls := idCalls st + 1\<rparr>,
                u2\<lparr>dangerZone := Some
                  \<lparr>dz_id = makeId st (idCalls st), dz_type = ''danger-zone'',
                   dz_reason = reason, dz_userId = u_id u2, dz_name = u_name u2,
                   dz_location = None,
                   dz_lastSeenAt = toISOString (orNow (lastCheckInAt u2) now)\<rparr>\<rparr>))"

definition userKey :: "string option \<Rightarrow> string" where
  \<comment> \<open>\<^verbatim>\<open>String(userId || "").trim()\<close>\<close>
  "userKey userId = trim (orDefault userId [])"

definition getOrCreateUser ::
  "state \<Rightarrow> string option \<Rightarrow> string option \<Rightarrow> error + state \<times> user" where
  "getOrCreateUser st userId name =
     (let ident = userKey userId
      in if ident = [] then Inl (Error ''userId is required'')
         else
           case map_of (users st) ident of
             None \<Rightarrow>
               let u = \<lparr>u_id = ident,
                        u_name = slice0 60 (orDefault name ''Unknown Survivor''),
                        streak = 0, lastCheckInAt = None, lastCheckInDayKey = None,
                        lastKnownLocation = None, checkInHistory = [],
                        status = Unknown, missingSince = None, dangerZone = None\<rparr>
               in Inr (st\<lparr>users := AList.update ident u (users st)\<rparr>, u)
           | Some u \<Rightarrow>
               if truthy name then
                 let u' = u\<lparr>u_name := slice0 60 (orDefault name [])\<rparr>
                 in Inr (st\<lparr>users := AList.update ident u' (users st)\<rparr>, u')
               else Inr (st, u))"

definition normalizeCheckInNote :: "string option \<Rightarrow> string option" where
  "normalizeCheckInNote v =
     (let s = trim (orDefault v []) in if s = [] then None else Some (slice0 180 s))"

fun findIndex :: "('a \<Rightarrow> bool) \<Rightarrow> 'a list \<Rightarrow> nat option" where
  "findIndex P [] = None"
| "findIndex P (x # xs) = (if P x then Some 0 else map_option Suc (findIndex P xs))"

text \<open>
  A participant is only ever created with an empty history array, so the guard
  \<^verbatim>\<open>if (!user.checkInHistory)\<close> never fires and the history is a list.
\<close>

definition pushCheckInHistory ::
  "user \<Rightarrow> string \<Rightarrow> int \<Rightarrow> location option \<Rightarrow> string option \<Rightarrow> user" where
  "pushCheckInHistory u dayKey atDate loc note =
     (let entry = \<lparr>e_dayKey = dayKey, e_at = toISOString atDate, e_location = loc, e_note = note\<rparr>;
          h = (case findIndex (\<lambda>x. e_dayKey x = dayKey) (checkInHistory u) of
                 Some idx \<Rightarrow> (checkInHistory u)[idx := entry]
               | None \<Rightarrow> checkInHistory u @ [entry])
      in u\<lparr>checkInHistory := (if length h > 21 then drop (length h - 21) h else h)\<rparr>)"

text \<open>
  The time of a check-in or sweep is a valid date (the default \<^verbatim>\<open>new Date()\<close>), given
  by its time value; the streak is an integer. The participant object returned by \<^verbatim>\<open>getOrCreateUser\<close> is the one stored
  under the trimmed id, so the model writes the updated participant back under that key.
\<close>

definition checkIn :: "state \<Rightarrow> checkInPayload \<Rightarrow> int \<Rightarrow> error + state \<times> user" where
  "checkIn st p now =
     (case getOrCreateUser st (p_userId p) (p_name p) of
        Inl e \<Rightarrow> Inl e
      | Inr (st1, u0) \<Rightarrow>
          let todayKey = utcDayKey (Some now);
              yesterdayKey = utcYesterdayDayKey (Some now);
              newLocation = asLocation (p_location p);
              u1 = (case newLocation of
                      Some l \<Rightarrow> u0\<lparr>lastKnownLocation := Some l\<rparr>
                    | None \<Rightarrow> u0);
              cleanNote = normalizeCheckInNote (p_note p);
              u2 = pushCheckInHistory u1 todayKey now newLocation cleanNote;
              u3 = (if lastCheckInDayKey u2 = Some todayKey then u2
                    else if lastCheckInDayKey u2 = Some yesterdayKey then
                      u2\<lparr>streak := max 1 ((if streak u2 = 0 then 0 else streak u2) + 1)\<rparr>
                    else u2\<lparr>streak := 1\<rparr>);
              u4 = u3\<lparr>lastCheckInAt := Some now, lastCheckInDayKey := Some todayKey,
                       status := Ok, missingSince := None, dangerZone := None\<rparr>
          in Inr (st1\<lparr>users := AList.update (userKey (p_userId p)) u4 (users st1)\<rparr>, u4))"

fun sweepLoop :: "int \<Rightarrow> state \<Rightarrow> (string \<times> user) list \<Rightarrow> state \<times> (string \<times> user) list" where
  "sweepLoop now st [] = (st, [])"
| "sweepLoop now st ((k, u) # rest) =
     (let (st1, u1) =
            (if status u = Missing then (st, u)
             else if isOlderThanYesterdayDayKey (lastCheckInDayKey u) (Some now)
               then markMissing st u now ''streak-broken''
             else (st, u));
          (st2, rest') = sweepLoop now st1 rest
      in (st2, (k, u1) # rest'))"

definition sweepForBrokenStreaks :: "state \<Rightarrow> int \<Rightarrow> state" where
  "sweepForBrokenStreaks st now =
     (let (st', us) = sweepLoop now st (users st) in st'\<lparr>users := us\<rparr>)"

fun collectZones :: "(string \<times> user) list \<Rightarrow> dangerZoneRecord list" where
  "collectZones [] = []"
| "collectZones ((k, u) # rest) =
     (if status u \<noteq> Missing then collectZones rest
      else case dangerZone u of
             None \<Rightarrow> collectZones rest
           | Some z \<Rightarrow> z # collectZones rest)"

definition dangerZones :: "state \<Rightarrow> int \<Rightarrow> state \<times> dangerZoneRecord list" where
  "dangerZones st now =
     (let st' = sweepForBrokenStreaks st now in (st', collectZones (users st')))"

section \<open>Auxiliary notions for the proofs\<close>

definition checkedInUser :: "user \<Rightarrow> checkInPayload \<Rightarrow> int \<Rightarrow> user" where
  \<comment> \<open>what \<^const>\<open>checkIn\<close> makes of the participant it resolved\<close>
  "checkedInUser u0 p now =
     (let todayKey = utcDayKey (Some now);
          yesterdayKey = utcYesterdayDayKey (Some now);
          newLocation = asLocation (p_location p);
          u1 = (case newLocation of
                  Some l \<Rightarrow> u0\<lparr>lastKnownLocation := Some l\<rparr>
                | None \<Rightarrow> u0);
          cleanNote = normalizeCheckInNote (p_note p);
          u2 = pushCheckInHistory u1 todayKey now newLocation cleanNote;
          u3 = (if lastCheckInDayKey u2 = Some todayKey then u2
                else if lastCheckInDayKey u2 = Some yesterdayKey then
                  u2\<lparr>streak := max 1 ((if streak u2 = 0 then 0 else streak u2) + 1)\<rparr>
                else u2\<lparr>streak := 1\<rparr>)
      in u3\<lparr>lastCheckInAt := Some now, lastCheckInDayKey := Some todayKey,
            status := Ok, missingSince := None, dangerZone := None\<rparr>)"

section \<open>Reachable registries\<close>

text \<open>
  The states the server can be in: the initial state, and every state an exported operation
  of the engine produces from a reachable one. Other parts of the server draw identifiers
  from \<^verbatim>\<open>state.makeId\<close> as well; that is the last rule.
\<close>

inductive reachable :: "state \<Rightarrow> bool" where
  initial: "reachable (createInitialState mk)"
| lookup: "reachable st \<Longrightarrow> getOrCreateUser st userId name = Inr (st', u) \<Longrightarrow> reachable st'"
| checkedIn: "reachable st \<Longrightarrow> checkIn st p now = Inr (st', u) \<Longrightarrow> reachable st'"
| swept: "reachable st \<Longrightarrow> reachable (sweepForBrokenStreaks st now)"
| listed: "reachable st \<Longrightarrow> dangerZones st now = (st', zs) \<Longrightarrow> reachable st'"
| drawn: "reachable st \<Longrightarrow> reachable (st\<lparr>idCalls := idCalls st + 1\<rparr>)"

definition historyOk :: "historyEntry list \<Rightarrow> bool" where
  "historyOk h = (length h \<le> 21 \<and> distinct (map e_dayKey h))"

definition registryOk :: "state \<Rightarrow> bool" where
  "registryOk st =
     (distinct (map fst (users st)) \<and> list_all (\<lambda>(k, u). historyOk (checkInHistory u)) (users st))"

definition becomesMissing :: "int \<Rightarrow> string \<times> user \<Rightarrow> bool" where
  \<comment> \<open>the participants a sweep at \<open>now\<close> marks as missing\<close>
  "becomesMissing now = (\<lambda>(k, u).
     status u \<noteq> Missing \<and> isOlderThanYesterdayDayKey (lastCheckInDayKey u) (Some now))"

definition zonesOk :: "state \<Rightarrow> bool" where
  \<comment> \<open>every participant marked missing carries a danger-zone record for their location\<close>
  "zonesOk st =
     list_all (\<lambda>(k, u). status u = Missing \<longrightarrow>
        (\<exists>z. dangerZone u = Some z \<and> dz_location z = lastKnownLocation u)) (users st)"

section \<open>Example runs\<close>

text \<open>
  A concrete registry, used to run the operations: participant \<^verbatim>\<open>p1\<close> checks in on
  1 March 2024 at 00:00 UTC, once with the location (1, 2) and once without one.
\<close>

definition ex_ids :: "nat \<Rightarrow> string" where
  "ex_ids n = ''zone-'' @ natToString n"

definition ex_t0 :: int where
  \<comment> \<open>2024-03-01T00:00:00Z\<close>
  "ex_t0 = 1709251200000"

definition ex_hour :: int where
  \<comment> \<open>2024-03-01T01:00:00Z\<close>
  "ex_hour = 1709254800000"

definition ex_t1 :: int where
  \<comment> \<open>2024-03-02T00:00:00Z\<close>
  "ex_t1 = 1709337600000"

definition ex_t3 :: int where
  \<comment> \<open>2024-03-04T00:00:00Z\<close>
  "ex_t3 = 1709510400000"

definition ex_located :: checkInPayload where
  "ex_located =
     \<lparr>p_userId = Some '' p1 '', p_name = Some ''Ada'',
      p_location = Some \<lparr>in_lat = Num (Finite 1), in_lng = Num (Finite 2)\<rparr>,
      p_note = Some ''ok''\<rparr>"

definition ex_plain :: checkInPayload where
  "ex_plain = \<lparr>p_userId = Some ''p1'', p_name = None, p_location = None, p_note = None\<rparr>"

definition ex_nonfinite :: checkInPayload where
  "ex_nonfinite =
     \<lparr>p_userId = Some ''p1'', p_name = None,
      p_location = Some \<lparr>in_lat = Num PosInfinity, in_lng = Undefined\<rparr>, p_note = None\<rparr>"

definition ex_registry :: "user \<Rightarrow> nat \<Rightarrow> state" where
  \<comment> \<open>the registry that holds \<^verbatim>\<open>p1\<close> only, after \<open>n\<close> identifiers were drawn\<close>
  "ex_registry u n = \<lparr>users = [(''p1'', u)], makeId = ex_ids, idCalls = n\<rparr>"

definition ex_place :: location where
  "ex_place = \<lparr>lat = Finite 1, lng = Finite 2\<rparr>"

definition ex_user1 :: user where
  \<comment> \<open>\<^verbatim>\<open>p1\<close> after the check-in with a location\<close>
  "ex_user1 =
     \<lparr>u_id = ''p1'', u_name = ''Ada'', streak = 1, lastCheckInAt = Some ex_t0,
      lastCheckInDayKey = Some ''2024-03-01'', lastKnownLocation = Some ex_place,
      checkInHistory =
        [\<lparr>e_dayKey = ''2024-03-01'', e_at = ''2024-03-01T00:00:00.000Z'',
          e_location = Some ex_place, e_note = Some ''ok''\<rparr>],
      status = Ok, missingSince = None, dangerZone = None\<rparr>"

definition ex_zone1 :: dangerZoneRecord where
  "ex_zone1 =
     \<lparr>dz_id = ''zone-0'', dz_type = ''danger-zone'', dz_reason = ''streak-broken'',
      dz_userId = ''p1'', dz_name = ''Ada'', dz_location = Some ex_place,
      dz_lastSeenAt = ''2024-03-01T00:00:00.000Z''\<rparr>"

definition ex_user1_missing :: user where
  \<comment> \<open>\<^verbatim>\<open>p1\<close> after the sweep of 4 March\<close>
  "ex_user1_missing =
     ex_user1\<lparr>status := Missing, missingSince := Some ex_t0, dangerZone := Some ex_zone1\<rparr>"

definition ex_user0 :: user where
  \<comment> \<open>\<^verbatim>\<open>p1\<close> after a first check-in without a location\<close>
  "ex_user0 =
     \<lparr>u_id = ''p1'', u_name = ''Unknown Survivor'', streak = 1, lastCheckInAt = Some ex_t0,
      lastCheckInDayKey = Some ''2024-03-01'', lastKnownLocation = None,
      checkInHistory =
        [\<lparr>e_dayKey = ''2024-03-01'', e_at = ''2024-03-01T00:00:00.000Z'',
          e_location = None, e_note = None\<rparr>],
      status = Ok, missingSince = None, dangerZone = None\<rparr>"

definition ex_zone0 :: dangerZoneRecord where
  "ex_zone0 =
     \<lparr>dz_id = ''zone-0'', dz_type = ''danger-zone'', dz_reason = ''streak-broken'',
      dz_userId = ''p1'', dz_name = ''Unknown Survivor'', dz_location = None,
      dz_lastSeenAt = ''2024-03-01T00:00:00.000Z''\<rparr>"

definition ex_user0_missing :: user where
  "ex_user0_missing =
     ex_user0\<lparr>status := Missing, missingSince := Some ex_t0, dangerZone := Some ex_zone0\<rparr>"

definition ex_user1_again :: user where
  \<comment> \<open>\<^verbatim>\<open>p1\<close> after a second check-in on 1 March, without a location\<close>
  "ex_user1_again =
     ex_user1\<lparr>lastCheckInAt := Some ex_hour,
       checkInHistory :=
         [\<lparr>e_dayKey = ''2024-03-01'', e_at = ''2024-03-01T01:00:00.000Z'',
           e_location = None, e_note = None\<rparr>]\<rparr>"

definition ex_user1_next :: user where
  \<comment> \<open>\<^verbatim>\<open>p1\<close> after a check-in on 2 March\<close>
  "ex_user1_next =
     ex_user1\<lparr>streak := 2, lastCheckInAt := Some ex_t1, lastCheckInDayKey := Some ''2024-03-02'',
       checkInHistory := checkInHistory ex_user1 @
         [\<lparr>e_dayKey = ''2024-03-02'', e_at = ''2024-03-02T00:00:00.000Z'',
           e_location = None, e_note = None\<rparr>]\<rparr>"

definition ex_user1_back :: user where
  \<comment> \<open>\<^verbatim>\<open>p1\<close> after no check-in on 2 and 3 March and a check-in on 4 March\<close>
  "ex_user1_back =
     ex_user1\<lparr>lastCheckInAt := Some ex_t3, lastCheckInDayKey := Some ''2024-03-04'',
       checkInHistory := checkInHistory ex_user1 @
         [\<lparr>e_dayKey = ''2024-03-04'', e_at = ''2024-03-04T00:00:00.000Z'',
           e_location = None, e_note = None\<rparr>]\<rparr>"

definition ex_newcomer :: user where
  \<comment> \<open>\<^verbatim>\<open>p9\<close> as created by a first lookup without a name\<close>
  "ex_newcomer =
     \<lparr>u_id = ''p9'', u_name = ''Unknown Survivor'', streak = 0, lastCheckInAt = None,
      lastCheckInDayKey = None, lastKnownLocation = None, checkInHistory = [],
      status = Unknown, missingSince = None, dangerZone = None\<rparr>"

section \<open>Properties of the calendar\<close>


























section \<open>Properties of the registry operations\<close>

lemma findIndex_Some:
  "findIndex P xs = Some i \<Longrightarrow> i < length xs \<and> P (xs ! i) \<and> (\<forall>j<i. \<not> P (xs ! j))"
proof (induction xs arbitrary: i)
  case Nil
  then show ?case by simp
next
  case (Cons x xs)
  show ?case
  proof (cases "P x")
    case True
    then show ?thesis using Cons.prems by simp
  next
    case False
    then obtain j where j: "findIndex P xs = Some j" "i = Suc j"
      using Cons.prems by auto
    from Cons.IH [OF j(1)] False show ?thesis
      unfolding j(2) by (auto simp: less_Suc_eq_0_disj)
  qed
qed

lemma findIndex_None: "findIndex P xs = None \<longleftrightarrow> (\<forall>x\<in>set xs. \<not> P x)"
  by (induction xs) auto

lemma findIndex_first:
  "i < length xs \<Longrightarrow> P (xs ! i) \<Longrightarrow> (\<forall>j<i. \<not> P (xs ! j)) \<Longrightarrow> findIndex P xs = Some i"
proof (induction xs arbitrary: i)
  case Nil
  then show ?case by simp
next
  case (Cons x xs)
  show ?case
  proof (cases i)
    case 0
    then show ?thesis using Cons.prems by simp
  next
    case (Suc j)
    then have "\<not> P x" using Cons.prems(3) by auto
    moreover have "findIndex P xs = Some j"
      using Cons.prems Suc by (intro Cons.IH) auto
    ultimately show ?thesis using Suc by simp
  qed
qed

lemma set_update_subset: "set (AList.update k v al) \<subseteq> insert (k, v) (set al)"
  by (induction al) auto

lemma list_all_update:
  "list_all Q al \<Longrightarrow> Q (k, v) \<Longrightarrow> list_all Q (AList.update k v al)"
  using set_update_subset [of k v al] by (auto simp: list_all_iff)

lemma map_of_update_same: "map_of (AList.update k v al) k = Some v"
  by (simp add: update_conv')

lemma map_of_update_other: "k' \<noteq> k \<Longrightarrow> map_of (AList.update k v al) k' = map_of al k'"
  by (simp add: update_conv')

lemma update_present_keys:
  "map_of al k = Some v \<Longrightarrow> map fst (AList.update k v' al) = map fst al"
  by (auto simp: update_keys dest: map_of_SomeD intro: rev_image_eqI)

lemma update_absent_keys:
  "map_of al k = None \<Longrightarrow> map fst (AList.update k v' al) = map fst al @ [k]"
  by (auto simp: update_keys map_of_eq_None_iff)

subsection \<open>History upsert\<close>

lemma pushCheckInHistory_replace:
  assumes "findIndex (\<lambda>x. e_dayKey x = dayKey) (checkInHistory u) = Some i"
    and "length (checkInHistory u) \<le> 21"
  shows "pushCheckInHistory u dayKey atDate loc note =
    u\<lparr>checkInHistory := (checkInHistory u)
       [i := \<lparr>e_dayKey = dayKey, e_at = toISOString atDate, e_location = loc, e_note = note\<rparr>]\<rparr>"
  using assms by (simp add: pushCheckInHistory_def)

lemma pushCheckInHistory_append:
  assumes "findIndex (\<lambda>x. e_dayKey x = dayKey) (checkInHistory u) = None"
  shows "pushCheckInHistory u dayKey atDate loc note =
    u\<lparr>checkInHistory :=
      (let h = checkInHistory u @
         [\<lparr>e_dayKey = dayKey, e_at = toISOString atDate, e_location = loc, e_note = note\<rparr>]
       in if length h > 21 then drop (length h - 21) h else h)\<rparr>"
  using assms by (simp add: pushCheckInHistory_def Let_def)

lemma pushCheckInHistory_historyOk:
  assumes "historyOk (checkInHistory u)"
  shows "historyOk (checkInHistory (pushCheckInHistory u dayKey atDate loc note))"
proof (cases "findIndex (\<lambda>x. e_dayKey x = dayKey) (checkInHistory u)")
  case None
  define h where "h = checkInHistory u @
    [\<lparr>e_dayKey = dayKey, e_at = toISOString atDate, e_location = loc, e_note = note\<rparr>]"
  have "dayKey \<notin> set (map e_dayKey (checkInHistory u))"
    using None by (auto simp: findIndex_None)
  then have d: "distinct (map e_dayKey h)"
    using assms by (simp add: h_def historyOk_def)
  have "distinct (map e_dayKey (drop n h))" for n
    using d by (simp add: drop_map [symmetric] del: drop_map)
  moreover have "length h \<le> 22"
    using assms by (simp add: h_def historyOk_def)
  ultimately show ?thesis
    by (simp add: pushCheckInHistory_append [OF None] h_def [symmetric] historyOk_def d)
next
  case (Some i)
  from findIndex_Some [OF Some]
  have i: "i < length (checkInHistory u)" "e_dayKey (checkInHistory u ! i) = dayKey"
    by simp_all
  have "map e_dayKey ((checkInHistory u)
      [i := \<lparr>e_dayKey = dayKey, e_at = toISOString atDate, e_location = loc, e_note = note\<rparr>])
    = (map e_dayKey (checkInHistory u))[i := dayKey]"
    by (simp add: map_update)
  also have "\<dots> = map e_dayKey (checkInHistory u)"
    using i by (metis list_update_id nth_map)
  finally show ?thesis
    using assms by (simp add: pushCheckInHistory_replace [OF Some] historyOk_def)
qed

lemma pushCheckInHistory_other_fields:
  "lastCheckInDayKey (pushCheckInHistory u dayKey atDate loc note) = lastCheckInDayKey u"
  "streak (pushCheckInHistory u dayKey atDate loc note) = streak u"
  "lastKnownLocation (pushCheckInHistory u dayKey atDate loc note) = lastKnownLocation u"
  "u_id (pushCheckInHistory u dayKey atDate loc note) = u_id u"
  "u_name (pushCheckInHistory u dayKey atDate loc note) = u_name u"
  by (simp_all add: pushCheckInHistory_def Let_def)

subsection \<open>Lookup and creation\<close>

lemma getOrCreateUser_error:
  "getOrCreateUser st userId name = Inl e \<longleftrightarrow> userKey userId = [] \<and> e = Error ''userId is required''"
  by (auto simp: getOrCreateUser_def Let_def split: option.splits)

lemma getOrCreateUser_new:
  assumes "userKey userId \<noteq> []" "map_of (users st) (userKey userId) = None"
  shows "getOrCreateUser st userId name =
    (let u = \<lparr>u_id = userKey userId, u_name = slice0 60 (orDefault name ''Unknown Survivor''),
              streak = 0, lastCheckInAt = None, lastCheckInDayKey = None,
              lastKnownLocation = None, checkInHistory = [],
              status = Unknown, missingSince = None, dangerZone = None\<rparr>
     in Inr (st\<lparr>users := AList.update (userKey userId) u (users st)\<rparr>, u))"
  using assms by (simp add: getOrCreateUser_def Let_def)

lemma getOrCreateUser_existing:
  assumes "userKey userId \<noteq> []" "map_of (users st) (userKey userId) = Some u"
  shows "getOrCreateUser st userId name =
    (if truthy name
     then Inr (st\<lparr>users := AList.update (userKey userId)
                   (u\<lparr>u_name := slice0 60 (orDefault name [])\<rparr>) (users st)\<rparr>,
               u\<lparr>u_name := slice0 60 (orDefault name [])\<rparr>)
     else Inr (st, u))"
  using assms by (simp add: getOrCreateUser_def Let_def)

lemma getOrCreateUser_stored:
  assumes "getOrCreateUser st userId name = Inr (st', u)"
  shows "map_of (users st') (userKey userId) = Some u"
  using assms
  by (auto simp: getOrCreateUser_def Let_def map_of_update_same split: option.splits if_splits)

lemma getOrCreateUser_fields:
  assumes "getOrCreateUser st userId name = Inr (st', u)"
  shows "case map_of (users st) (userKey userId) of
      None \<Rightarrow> streak u = 0 \<and> lastCheckInDayKey u = None \<and> lastKnownLocation u = None
        \<and> checkInHistory u = []
    | Some u0 \<Rightarrow> streak u = streak u0 \<and> lastCheckInDayKey u = lastCheckInDayKey u0
        \<and> lastKnownLocation u = lastKnownLocation u0 \<and> checkInHistory u = checkInHistory u0"
  using assms
  by (auto simp: getOrCreateUser_def Let_def split: option.splits if_splits)

lemma getOrCreateUser_registryOk:
  assumes "registryOk st" "getOrCreateUser st userId name = Inr (st', u)"
  shows "registryOk st' \<and> historyOk (checkInHistory u)"
proof -
  have k: "userKey userId \<noteq> []"
    using assms(2) by (auto simp: getOrCreateUser_def Let_def split: if_splits)
  show ?thesis
  proof (cases "map_of (users st) (userKey userId)")
    case None
    then show ?thesis
      using assms k
      by (auto simp: getOrCreateUser_new registryOk_def Let_def historyOk_def distinct_update
          intro!: list_all_update)
  next
    case (Some u0)
    then have "(userKey userId, u0) \<in> set (users st)" by (rule map_of_SomeD)
    then have "historyOk (checkInHistory u0)"
      using assms(1) by (auto simp: registryOk_def list_all_iff)
    then show ?thesis
      using assms k Some
      by (auto simp: getOrCreateUser_existing registryOk_def distinct_update
          intro!: list_all_update split: if_splits)
  qed
qed

subsection \<open>Check-in\<close>

lemma checkIn_resolved:
  assumes "getOrCreateUser st (p_userId p) (p_name p) = Inr (st1, u0)"
  shows "checkIn st p now =
    Inr (st1\<lparr>users := AList.update (userKey (p_userId p)) (checkedInUser u0 p now) (users st1)\<rparr>,
         checkedInUser u0 p now)"
  unfolding checkIn_def checkedInUser_def using assms by (simp add: Let_def)


lemma checkIn_unfold:
  assumes "checkIn st p now = Inr (st', u')"
  obtains st1 u0 where "getOrCreateUser st (p_userId p) (p_name p) = Inr (st1, u0)"
    and "st' = st1\<lparr>users := AList.update (userKey (p_userId p)) u' (users st1)\<rparr>"
    and "u' = checkedInUser u0 p now"
proof (cases "getOrCreateUser st (p_userId p) (p_name p)")
  case (Inl e)
  then have "checkIn st p now = Inl e" by (simp add: checkIn_def)
  then show ?thesis using assms by simp
next
  case (Inr r)
  obtain st1 u0 where r: "r = (st1, u0)" by (cases r)
  from checkIn_resolved [OF Inr [unfolded r], of now] assms
  have "st' = st1\<lparr>users := AList.update (userKey (p_userId p)) u' (users st1)\<rparr>"
    "u' = checkedInUser u0 p now"
    by simp_all
  then show ?thesis using that Inr r by blast
qed

lemma checkIn_stored:
  assumes "checkIn st p now = Inr (st', u')"
  shows "map_of (users st') (userKey (p_userId p)) = Some u'"
  using assms by (elim checkIn_unfold) (simp add: map_of_update_same)

lemma checkedInUser_history:
  "checkInHistory (checkedInUser u0 p now) =
     checkInHistory (pushCheckInHistory u0 (utcDayKey (Some now)) now
        (asLocation (p_location p)) (normalizeCheckInNote (p_note p)))"
  by (simp add: checkedInUser_def Let_def pushCheckInHistory_def split: option.splits)

lemma checkedInUser_final:
  "status (checkedInUser u0 p now) = Ok"
  "missingSince (checkedInUser u0 p now) = None"
  "dangerZone (checkedInUser u0 p now) = None"
  "lastCheckInAt (checkedInUser u0 p now) = Some now"
  "lastCheckInDayKey (checkedInUser u0 p now) = Some (utcDayKey (Some now))"
  by (simp_all add: checkedInUser_def Let_def)


lemma checkedInUser_location:
  "lastKnownLocation (checkedInUser u0 p now) =
     (case asLocation (p_location p) of Some l \<Rightarrow> Some l | None \<Rightarrow> lastKnownLocation u0)"
  by (simp add: checkedInUser_def Let_def pushCheckInHistory_other_fields split: option.splits)

lemma checkIn_registryOk:
  assumes "registryOk st" "checkIn st p now = Inr (st', u')"
  shows "registryOk st'"
proof -
  from assms(2) obtain st1 u0 where
    g: "getOrCreateUser st (p_userId p) (p_name p) = Inr (st1, u0)"
    and s: "st' = st1\<lparr>users := AList.update (userKey (p_userId p)) u' (users st1)\<rparr>"
    and u: "u' = checkedInUser u0 p now"
    by (rule checkIn_unfold)
  from getOrCreateUser_registryOk [OF assms(1) g]
  have r: "registryOk st1" and h: "historyOk (checkInHistory u0)" by simp_all
  have "historyOk (checkInHistory u')"
    unfolding u checkedInUser_history using h by (rule pushCheckInHistory_historyOk)
  then show ?thesis
    using r unfolding s by (auto simp: registryOk_def distinct_update intro!: list_all_update)
qed

subsection \<open>Sweep\<close>

lemma markMissing_fields:
  "checkInHistory (snd (markMissing st u now reason)) = checkInHistory u"
  "lastCheckInDayKey (snd (markMissing st u now reason)) = lastCheckInDayKey u"
  "lastKnownLocation (snd (markMissing st u now reason)) = lastKnownLocation u"
  by (simp_all add: markMissing_def Let_def split: option.splits)

lemma markMissing_status: "status (snd (markMissing st u now reason)) = Missing"
  by (simp add: markMissing_def Let_def split: option.splits)

lemma markMissing_state:
  "status u \<noteq> Missing \<Longrightarrow> fst (markMissing st u now reason) = st\<lparr>idCalls := idCalls st + 1\<rparr>"
  by (simp add: markMissing_def Let_def split: option.splits)

lemma markMissing_record:
  assumes "status u \<noteq> Missing"
  shows "snd (markMissing st u now reason) =
    u\<lparr>status := Missing, missingSince := Some (orNow (lastCheckInAt u) now),
      dangerZone := Some
        \<lparr>dz_id = makeId st (idCalls st), dz_type = ''danger-zone'', dz_reason = reason,
         dz_userId = u_id u, dz_name = u_name u, dz_location = lastKnownLocation u,
         dz_lastSeenAt = toISOString (orNow (lastCheckInAt u) now)\<rparr>\<rparr>"
  using assms by (simp add: markMissing_def Let_def split: option.splits)

lemma sweepLoop_Cons:
  "sweepLoop now st ((k, u) # rest) =
     (let r = (if becomesMissing now (k, u) then markMissing st u now ''streak-broken''
               else (st, u));
          r' = sweepLoop now (fst r) rest
      in (fst r', (k, snd r) # snd r'))"
  by (simp add: becomesMissing_def Let_def split: prod.splits)

lemma sweepLoop_length: "length (snd (sweepLoop now st us)) = length us"
proof (induction us arbitrary: st)
  case Nil
  then show ?case by simp
next
  case (Cons a us)
  obtain k u where a: "a = (k, u)" by (cases a)
  show ?case
    unfolding a sweepLoop_Cons by (simp add: Let_def Cons.IH)
qed

lemma sweepLoop_state:
  "fst (sweepLoop now st us) = st\<lparr>idCalls := idCalls st + length (filter (becomesMissing now) us)\<rparr>"
proof (induction us arbitrary: st)
  case Nil
  then show ?case by simp
next
  case (Cons a us)
  obtain k u where a: "a = (k, u)" by (cases a)
  show ?case
  proof (cases "becomesMissing now (k, u)")
    case True
    then have "status u \<noteq> Missing" by (simp add: becomesMissing_def)
    then have "fst (markMissing st u now ''streak-broken'') = st\<lparr>idCalls := idCalls st + 1\<rparr>"
      by (rule markMissing_state)
    then show ?thesis
      unfolding a sweepLoop_Cons using True by (simp add: Let_def Cons.IH)
  next
    case False
    then show ?thesis
      unfolding a sweepLoop_Cons by (simp add: Let_def Cons.IH)
  qed
qed

lemma sweepLoop_nth:
  assumes "i < length us"
  shows "snd (sweepLoop now st us) ! i =
    (if becomesMissing now (us ! i)
     then (fst (us ! i),
           snd (markMissing
                  (st\<lparr>idCalls := idCalls st + length (filter (becomesMissing now) (take i us))\<rparr>)
                  (snd (us ! i)) now ''streak-broken''))
     else us ! i)"
  using assms
proof (induction us arbitrary: st i)
  case Nil
  then show ?case by simp
next
  case (Cons a us)
  obtain k u where a: "a = (k, u)" by (cases a)
  show ?case
  proof (cases i)
    case 0
    then show ?thesis
      unfolding a sweepLoop_Cons by (simp add: Let_def)
  next
    case (Suc j)
    then have j: "j < length us" using Cons.prems by simp
    show ?thesis
    proof (cases "becomesMissing now (k, u)")
      case True
      then have "status u \<noteq> Missing" by (simp add: becomesMissing_def)
      then have "fst (markMissing st u now ''streak-broken'') = st\<lparr>idCalls := idCalls st + 1\<rparr>"
        by (rule markMissing_state)
      then show ?thesis
        unfolding a sweepLoop_Cons Suc using True
        by (simp add: Let_def Cons.IH [OF j])
    next
      case False
      then show ?thesis
        unfolding a sweepLoop_Cons Suc by (simp add: Let_def Cons.IH [OF j])
    qed
  qed
qed

lemma sweep_users: "users (sweepForBrokenStreaks st now) = snd (sweepLoop now st (users st))"
  by (simp add: sweepForBrokenStreaks_def split_def Let_def)

lemma sweep_users_length: "length (users (sweepForBrokenStreaks st now)) = length (users st)"
  by (simp add: sweep_users sweepLoop_length)

lemma sweep_users_nth:
  assumes "i < length (users st)"
  shows "users (sweepForBrokenStreaks st now) ! i =
    (if becomesMissing now (users st ! i)
     then (fst (users st ! i),
           snd (markMissing
                  (st\<lparr>idCalls := idCalls st
                       + length (filter (becomesMissing now) (take i (users st)))\<rparr>)
                  (snd (users st ! i)) now ''streak-broken''))
     else users st ! i)"
  unfolding sweep_users by (rule sweepLoop_nth [OF assms])

lemma sweep_idCalls:
  "idCalls (sweepForBrokenStreaks st now)
     = idCalls st + length (filter (becomesMissing now) (users st))"
  by (simp add: sweepForBrokenStreaks_def split_def Let_def sweepLoop_state)

lemma sweep_makeId: "makeId (sweepForBrokenStreaks st now) = makeId st"
  by (simp add: sweepForBrokenStreaks_def split_def Let_def sweepLoop_state)

lemma sweep_keys: "map fst (users (sweepForBrokenStreaks st now)) = map fst (users st)"
proof (rule nth_equalityI)
  show "length (map fst (users (sweepForBrokenStreaks st now))) = length (map fst (users st))"
    by (simp add: sweep_users_length)
next
  fix i
  assume "i < length (map fst (users (sweepForBrokenStreaks st now)))"
  then have i: "i < length (users st)" by (simp add: sweep_users_length)
  then show "map fst (users (sweepForBrokenStreaks st now)) ! i = map fst (users st) ! i"
    by (simp add: sweep_users_length sweep_users_nth)
qed

lemma sweep_histories:
  "map (\<lambda>e. checkInHistory (snd e)) (users (sweepForBrokenStreaks st now))
     = map (\<lambda>e. checkInHistory (snd e)) (users st)"
proof (rule nth_equalityI)
  show "length (map (\<lambda>e. checkInHistory (snd e)) (users (sweepForBrokenStreaks st now)))
     = length (map (\<lambda>e. checkInHistory (snd e)) (users st))"
    by (simp add: sweep_users_length)
next
  fix i
  assume "i < length (map (\<lambda>e. checkInHistory (snd e)) (users (sweepForBrokenStreaks st now)))"
  then have i: "i < length (users st)" by (simp add: sweep_users_length)
  then show "map (\<lambda>e. checkInHistory (snd e)) (users (sweepForBrokenStreaks st now)) ! i
     = map (\<lambda>e. checkInHistory (snd e)) (users st) ! i"
    by (simp add: sweep_users_length sweep_users_nth markMissing_fields)
qed

lemma registryOk_alt:
  "registryOk st \<longleftrightarrow>
     distinct (map fst (users st))
       \<and> list_all historyOk (map (\<lambda>e. checkInHistory (snd e)) (users st))"
  by (simp add: registryOk_def list_all_iff split_def)

lemma sweep_registryOk:
  assumes "registryOk st"
  shows "registryOk (sweepForBrokenStreaks st now)"
  using assms unfolding registryOk_alt sweep_keys sweep_histories .

lemma sweep_settled:
  assumes "i < length (users st)"
  shows "\<not> becomesMissing now (users (sweepForBrokenStreaks st now) ! i)"
proof (cases "becomesMissing now (users st ! i)")
  case True
  then show ?thesis
    using assms by (simp add: sweep_users_nth becomesMissing_def markMissing_status)
next
  case False
  then show ?thesis using assms by (simp add: sweep_users_nth)
qed

lemma sweep_no_candidates:
  assumes "filter (becomesMissing now) (users st) = []"
  shows "sweepForBrokenStreaks st now = st"
proof -
  have n: "\<not> becomesMissing now (users st ! i)" if "i < length (users st)" for i
    using assms that by (metis filter_empty_conv nth_mem)
  have "users (sweepForBrokenStreaks st now) = users st"
  proof (rule nth_equalityI)
    show "length (users (sweepForBrokenStreaks st now)) = length (users st)"
      by (rule sweep_users_length)
  next
    fix i
    assume "i < length (users (sweepForBrokenStreaks st now))"
    then have "i < length (users st)" by (simp add: sweep_users_length)
    then show "users (sweepForBrokenStreaks st now) ! i = users st ! i"
      using n by (simp add: sweep_users_nth)
  qed
  moreover have "idCalls (sweepForBrokenStreaks st now) = idCalls st"
    using assms by (simp add: sweep_idCalls)
  moreover have "state.more (sweepForBrokenStreaks st now) = state.more st"
    by (simp add: sweepForBrokenStreaks_def split_def Let_def sweepLoop_state)
  ultimately show ?thesis by (intro state.equality) (simp_all add: sweep_makeId)
qed

lemma sweep_idempotent:
  "sweepForBrokenStreaks (sweepForBrokenStreaks st now) now = sweepForBrokenStreaks st now"
proof (rule sweep_no_candidates)
  have "\<not> becomesMissing now e" if "e \<in> set (users (sweepForBrokenStreaks st now))" for e
  proof -
    from that obtain i where "i < length (users (sweepForBrokenStreaks st now))"
      "users (sweepForBrokenStreaks st now) ! i = e"
      by (auto simp: in_set_conv_nth)
    then show ?thesis using sweep_settled [of i st now] by (simp add: sweep_users_length)
  qed
  then show "filter (becomesMissing now) (users (sweepForBrokenStreaks st now)) = []"
    by (simp add: filter_empty_conv)
qed

lemma collectZones_member:
  "(k, u) \<in> set us \<Longrightarrow> status u = Missing \<Longrightarrow> dangerZone u = Some z \<Longrightarrow> z \<in> set (collectZones us)"
  by (induction us) (auto split: option.splits)

lemma collectZones_origin:
  "z \<in> set (collectZones us) \<Longrightarrow>
     \<exists>k u. (k, u) \<in> set us \<and> status u = Missing \<and> dangerZone u = Some z"
proof (induction us)
  case Nil
  then show ?case by simp
next
  case (Cons a us)
  obtain k u where a: "a = (k, u)" by (cases a)
  show ?case
  proof (cases "status u = Missing \<and> dangerZone u = Some z")
    case True
    then show ?thesis unfolding a by auto
  next
    case False
    then have "z \<in> set (collectZones us)"
      using Cons.prems unfolding a by (auto split: option.splits if_splits)
    from Cons.IH [OF this] show ?thesis by auto
  qed
qed

subsection \<open>Invariant of the reachable states\<close>

lemma reachable_registryOk: "reachable st \<Longrightarrow> registryOk st"
proof (induction rule: reachable.induct)
  case (initial mk)
  show ?case by (simp add: registryOk_def createInitialState_def)
next
  case (lookup st userId name st' u)
  then show ?case using getOrCreateUser_registryOk by blast
next
  case (checkedIn st p now st' u)
  then show ?case using checkIn_registryOk by blast
next
  case (swept st now)
  then show ?case by (simp add: sweep_registryOk)
next
  case (listed st now st' zs)
  then show ?case by (auto simp: dangerZones_def Let_def sweep_registryOk)
next
  case (drawn st)
  then show ?case by (simp add: registryOk_def)
qed

subsection \<open>Missing participants carry a record\<close>

lemma getOrCreateUser_zonesOk:
  assumes "zonesOk st" "getOrCreateUser st userId name = Inr (st', u)"
  shows "zonesOk st'"
proof -
  have k: "userKey userId \<noteq> []"
    using assms(2) getOrCreateUser_error [of st userId name] by force
  show ?thesis
  proof (cases "map_of (users st) (userKey userId)")
    case None
    then show ?thesis
      using assms k by (auto simp: getOrCreateUser_new zonesOk_def Let_def intro!: list_all_update)
  next
    case (Some u0)
    then have "(userKey userId, u0) \<in> set (users st)" by (rule map_of_SomeD)
    then have "status u0 = Missing \<longrightarrow>
        (\<exists>z. dangerZone u0 = Some z \<and> dz_location z = lastKnownLocation u0)"
      using assms(1) by (auto simp: zonesOk_def list_all_iff)
    then show ?thesis
      using assms k Some
      by (auto simp: getOrCreateUser_existing zonesOk_def intro!: list_all_update
          split: if_splits)
  qed
qed

lemma checkIn_zonesOk:
  assumes "zonesOk st" "checkIn st p now = Inr (st', u')"
  shows "zonesOk st'"
proof -
  from assms(2) obtain st1 u0 where
    g: "getOrCreateUser st (p_userId p) (p_name p) = Inr (st1, u0)"
    and s: "st' = st1\<lparr>users := AList.update (userKey (p_userId p)) u' (users st1)\<rparr>"
    and u: "u' = checkedInUser u0 p now"
    by (rule checkIn_unfold)
  have "zonesOk st1" using assms(1) g by (rule getOrCreateUser_zonesOk)
  then show ?thesis
    unfolding s by (auto simp: zonesOk_def u checkedInUser_final intro!: list_all_update)
qed

lemma sweep_zonesOk:
  assumes "zonesOk st"
  shows "zonesOk (sweepForBrokenStreaks st now)"
  unfolding zonesOk_def list_all_length
proof (intro allI impI)
  fix i
  assume "i < length (users (sweepForBrokenStreaks st now))"
  then have i: "i < length (users st)" by (simp add: sweep_users_length)
  obtain k u where e: "users st ! i = (k, u)" by (cases "users st ! i")
  have old: "status u = Missing \<longrightarrow>
      (\<exists>z. dangerZone u = Some z \<and> dz_location z = lastKnownLocation u)"
    using assms i e by (auto simp: zonesOk_def list_all_length)
  show "case users (sweepForBrokenStreaks st now) ! i of
      (k, u) \<Rightarrow> status u = Missing \<longrightarrow>
        (\<exists>z. dangerZone u = Some z \<and> dz_location z = lastKnownLocation u)"
  proof (cases "becomesMissing now (k, u)")
    case True
    then have "status u \<noteq> Missing" by (simp add: becomesMissing_def)
    then show ?thesis
      using True i e by (simp add: sweep_users_nth markMissing_record)
  next
    case False
    then show ?thesis using old i e by (simp add: sweep_users_nth)
  qed
qed

lemma reachable_zonesOk: "reachable st \<Longrightarrow> zonesOk st"
proof (induction rule: reachable.induct)
  case (initial mk)
  show ?case by (simp add: zonesOk_def createInitialState_def)
next
  case (lookup st userId name st' u)
  then show ?case using getOrCreateUser_zonesOk by blast
next
  case (checkedIn st p now st' u)
  then show ?case using checkIn_zonesOk by blast
next
  case (swept st now)
  then show ?case by (simp add: sweep_zonesOk)
next
  case (listed st now st' zs)
  then show ?case by (auto simp: dangerZones_def Let_def sweep_zonesOk)
next
  case (drawn st)
  then show ?case by (simp add: zonesOk_def)
qed

subsection \<open>Where the entry of the day sits\<close>

lemma findIndex_append_last:
  "(\<forall>x\<in>set xs. \<not> P x) \<Longrightarrow> P e \<Longrightarrow> findIndex P (xs @ [e]) = Some (length xs)"
  by (induction xs) auto

lemma pushCheckInHistory_entry:
  assumes "historyOk (checkInHistory u)"
  shows "\<exists>i. findIndex (\<lambda>x. e_dayKey x = dayKey)
               (checkInHistory (pushCheckInHistory u dayKey atDate loc note)) = Some i
    \<and> checkInHistory (pushCheckInHistory u dayKey atDate loc note) ! i
        = \<lparr>e_dayKey = dayKey, e_at = toISOString atDate, e_location = loc, e_note = note\<rparr>"
proof (cases "findIndex (\<lambda>x. e_dayKey x = dayKey) (checkInHistory u)")
  case None
  define entry where
    "entry = \<lparr>e_dayKey = dayKey, e_at = toISOString atDate, e_location = loc, e_note = note\<rparr>"
  define n where "n = (if length (checkInHistory u) \<ge> 21 then length (checkInHistory u) - 20 else 0)"
  have n: "n \<le> length (checkInHistory u)" by (simp add: n_def)
  have h: "checkInHistory (pushCheckInHistory u dayKey atDate loc note)
      = drop n (checkInHistory u) @ [entry]"
    using n by (auto simp: pushCheckInHistory_append [OF None] entry_def n_def Let_def)
  have "\<forall>x\<in>set (drop n (checkInHistory u)). e_dayKey x \<noteq> dayKey"
    using None by (auto simp: findIndex_None dest: in_set_dropD)
  then have "findIndex (\<lambda>x. e_dayKey x = dayKey) (drop n (checkInHistory u) @ [entry])
      = Some (length (drop n (checkInHistory u)))"
    by (intro findIndex_append_last) (simp_all add: entry_def)
  then show ?thesis
    unfolding h entry_def [symmetric] by (auto simp: nth_append)
next
  case (Some i)
  define entry where
    "entry = \<lparr>e_dayKey = dayKey, e_at = toISOString atDate, e_location = loc, e_note = note\<rparr>"
  have l: "length (checkInHistory u) \<le> 21" using assms by (simp add: historyOk_def)
  have h: "checkInHistory (pushCheckInHistory u dayKey atDate loc note)
      = (checkInHistory u)[i := entry]"
    by (simp add: pushCheckInHistory_replace [OF Some l] entry_def)
  from findIndex_Some [OF Some]
  have i: "i < length (checkInHistory u)"
    and b: "\<forall>j<i. e_dayKey (checkInHistory u ! j) \<noteq> dayKey"
    by simp_all
  have "findIndex (\<lambda>x. e_dayKey x = dayKey) ((checkInHistory u)[i := entry]) = Some i"
    using i b by (intro findIndex_first) (simp_all add: entry_def)
  then show ?thesis
    unfolding h entry_def [symmetric] using i by simp
qed

section \<open>The example runs, evaluated\<close>

lemma ex_keys:
  "utcDayKey (Some ex_t0) = ''2024-03-01''" "utcYesterdayDayKey (Some ex_t0) = ''2024-02-29''"
  "utcDayKey (Some ex_hour) = ''2024-03-01''" "utcYesterdayDayKey (Some ex_hour) = ''2024-02-29''"
  "utcDayKey (Some ex_t1) = ''2024-03-02''" "utcYesterdayDayKey (Some ex_t1) = ''2024-03-01''"
  "utcDayKey (Some ex_t3) = ''2024-03-04''" "utcYesterdayDayKey (Some ex_t3) = ''2024-03-03''"
  by code_simp+

lemma ex_stamps:
  "toISOString ex_t0 = ''2024-03-01T00:00:00.000Z''"
  "toISOString ex_hour = ''2024-03-01T01:00:00.000Z''"
  "toISOString ex_t1 = ''2024-03-02T00:00:00.000Z''"
  "toISOString ex_t3 = ''2024-03-04T00:00:00.000Z''"
  by code_simp+

lemma ex_zone_id: "ex_ids 0 = ''zone-0''"
  by code_simp

lemmas engine_defs =
  checkIn_def getOrCreateUser_def userKey_def trim_def isWhiteSpace_def orDefault_def truthy_def
  slice0_def asLocation_def normalizeCheckInNote_def pushCheckInHistory_def createInitialState_def
  isOlderThanYesterdayDayKey_def markMissing_def orNow_def sweepForBrokenStreaks_def
  dangerZones_def Let_def

lemmas ex_defs =
  ex_located_def ex_plain_def ex_nonfinite_def ex_place_def ex_registry_def ex_user1_def
  ex_zone1_def ex_user1_missing_def ex_user0_def ex_zone0_def ex_user0_missing_def
  ex_user1_again_def ex_user1_next_def ex_user1_back_def

lemma ex_first_located:
  "checkIn (createInitialState ex_ids) ex_located ex_t0 = Inr (ex_registry ex_user1 0, ex_user1)"
  by (simp add: engine_defs ex_defs ex_keys ex_stamps)

lemma ex_first_plain:
  "checkIn (createInitialState ex_ids) ex_plain ex_t0 = Inr (ex_registry ex_user0 0, ex_user0)"
  by (simp add: engine_defs ex_defs ex_keys ex_stamps)

lemma ex_reachable1: "reachable (ex_registry ex_user1 0)"
  using reachable.checkedIn [OF reachable.initial ex_first_located] .

lemma ex_reachable0: "reachable (ex_registry ex_user0 0)"
  using reachable.checkedIn [OF reachable.initial ex_first_plain] .

lemma ex_sweep1:
  "sweepForBrokenStreaks (ex_registry ex_user1 0) ex_t3 = ex_registry ex_user1_missing 1"
  by (simp add: engine_defs ex_defs ex_keys ex_stamps ex_zone_id)

lemma ex_zones0:
  "dangerZones (ex_registry ex_user0 0) ex_t3 = (ex_registry ex_user0_missing 1, [ex_zone0])"
  by (simp add: engine_defs ex_defs ex_keys ex_stamps ex_zone_id)

lemma ex_reachable1_missing: "reachable (ex_registry ex_user1_missing 1)"
  using reachable.swept [OF ex_reachable1, of ex_t3] by (simp add: ex_sweep1)

lemma ex_again:
  "checkIn (ex_registry ex_user1 0) ex_plain ex_hour
     = Inr (ex_registry ex_user1_again 0, ex_user1_again)"
  by (simp add: engine_defs ex_defs ex_keys ex_stamps)


lemma ex_back:
  "checkIn (ex_registry ex_user1_missing 1) ex_plain ex_t3
     = Inr (ex_registry ex_user1_back 1, ex_user1_back)"
  by (simp add: engine_defs ex_defs ex_keys ex_stamps)

lemma ex_key: "userKey (p_userId ex_plain) = ''p1''" "userKey (p_userId ex_located) = ''p1''"
  by (simp_all add: engine_defs ex_defs)

section \<open>The claims\<close>




text \<open>
  C4. After every successful check-in the participant, as returned and as stored in the
  registry, has status \<open>Ok\<close>, no \<open>missingSince\<close>, no danger zone, \<open>lastCheckInAt = now\<close> and
  \<open>lastCheckInDayKey\<close> equal to today's day key, whatever the state before was.
\<close>

theorem checkIn_clears_missing:
  assumes "checkIn st p now = Inr (st', u')"
  shows "status u' = Ok \<and> missingSince u' = None \<and> dangerZone u' = None
    \<and> lastCheckInAt u' = Some now \<and> lastCheckInDayKey u' = Some (utcDayKey (Some now))
    \<and> map_of (users st') (userKey (p_userId p)) = Some u'"
  using assms checkIn_stored [OF assms]
  by (elim checkIn_unfold) (simp add: checkedInUser_final)

theorem checkIn_clears_missing_witness:
  "status ex_user1_missing = Missing \<and> missingSince ex_user1_missing = Some ex_t0
   \<and> dangerZone ex_user1_missing = Some ex_zone1
   \<and> checkIn (ex_registry ex_user1_missing 1) ex_plain ex_t3
       = Inr (ex_registry ex_user1_back 1, ex_user1_back)
   \<and> status ex_user1_back = Ok \<and> missingSince ex_user1_back = None
   \<and> dangerZone ex_user1_back = None \<and> lastCheckInAt ex_user1_back = Some ex_t3
   \<and> lastCheckInDayKey ex_user1_back = Some ''2024-03-04''
   \<and> map_of (users (ex_registry ex_user1_back 1)) ''p1'' = Some ex_user1_back"
  using checkIn_clears_missing [OF ex_back] ex_back
  by (simp add: ex_keys ex_key ex_user1_missing_def)





text \<open>
  C6. A sweep leaves every participant who is already missing exactly as they are, record
  and \<open>missingSince\<close> included, and draws no identifier for them: a registry whose
  participants are all missing is returned unchanged. A second sweep with the same \<open>now\<close>
  changes nothing at all.
\<close>

theorem sweep_missing_is_noop:
  "(\<forall>i<length (users st). status (snd (users st ! i)) = Missing
      \<longrightarrow> users (sweepForBrokenStreaks st now) ! i = users st ! i)
   \<and> (list_all (\<lambda>(k, u). status u = Missing) (users st) \<longrightarrow> sweepForBrokenStreaks st now = st)
   \<and> sweepForBrokenStreaks (sweepForBrokenStreaks st now) now = sweepForBrokenStreaks st now"
proof (intro conjI allI impI)
  fix i
  assume "i < length (users st)" "status (snd (users st ! i)) = Missing"
  then show "users (sweepForBrokenStreaks st now) ! i = users st ! i"
    by (simp add: sweep_users_nth becomesMissing_def split_def)
next
  assume "list_all (\<lambda>(k, u). status u = Missing) (users st)"
  then have "filter (becomesMissing now) (users st) = []"
    by (auto simp: filter_empty_conv list_all_iff becomesMissing_def)
  then show "sweepForBrokenStreaks st now = st" by (rule sweep_no_candidates)
next
  show "sweepForBrokenStreaks (sweepForBrokenStreaks st now) now = sweepForBrokenStreaks st now"
    by (rule sweep_idempotent)
qed

theorem sweep_missing_is_noop_witness:
  "status (snd (users (ex_registry ex_user1_missing 1) ! 0)) = Missing
   \<and> sweepForBrokenStreaks (ex_registry ex_user1_missing 1) ex_t3 = ex_registry ex_user1_missing 1
   \<and> sweepForBrokenStreaks (ex_registry ex_user1 0) ex_t3 = ex_registry ex_user1_missing 1
   \<and> sweepForBrokenStreaks (sweepForBrokenStreaks (ex_registry ex_user1 0) ex_t3) ex_t3
       = ex_registry ex_user1_missing 1
   \<and> dangerZone ex_user1_missing = Some ex_zone1 \<and> missingSince ex_user1_missing = Some ex_t0"
proof -
  have a: "status (snd (users (ex_registry ex_user1_missing 1) ! 0)) = Missing"
    "list_all (\<lambda>(k, u). status u = Missing) (users (ex_registry ex_user1_missing 1))"
    "dangerZone ex_user1_missing = Some ex_zone1" "missingSince ex_user1_missing = Some ex_t0"
    by (simp_all add: ex_registry_def ex_user1_missing_def)
  have b: "sweepForBrokenStreaks (ex_registry ex_user1_missing 1) ex_t3
      = ex_registry ex_user1_missing 1"
    using sweep_missing_is_noop [of "ex_registry ex_user1_missing 1" ex_t3] a(2) by blast
  have c: "sweepForBrokenStreaks (sweepForBrokenStreaks (ex_registry ex_user1 0) ex_t3) ex_t3
      = sweepForBrokenStreaks (ex_registry ex_user1 0) ex_t3"
    using sweep_missing_is_noop [of "ex_registry ex_user1 0" ex_t3] by blast
  show ?thesis using a b c by (simp add: ex_sweep1)
qed

text \<open>
  C7. When a sweep finds a participant who is not missing and whose day key is stale, the
  participant becomes missing, \<open>missingSince\<close> is \<open>lastCheckInAt\<close> if present and \<open>now\<close>
  otherwise, and the record carries the reason "streak-broken", the participant's id and
  name, the current last known location, \<open>lastSeenAt\<close> printed from the same time, and an
  identifier drawn from \<open>makeId\<close> during this sweep: the draw after those made before the
  sweep and those made for the participants marked earlier in it. Nothing else changes.
\<close>

theorem sweep_marks_missing:
  assumes "i < length (users st)" and "users st ! i = (k, u)"
    and "status u \<noteq> Missing"
    and "isOlderThanYesterdayDayKey (lastCheckInDayKey u) (Some now)"
  shows "users (sweepForBrokenStreaks st now) ! i =
      (k, u\<lparr>status := Missing,
            missingSince := Some (case lastCheckInAt u of None \<Rightarrow> now | Some t \<Rightarrow> t),
            dangerZone := Some
              \<lparr>dz_id = makeId st
                 (idCalls st + length (filter (becomesMissing now) (take i (users st)))),
               dz_type = ''danger-zone'', dz_reason = ''streak-broken'',
               dz_userId = u_id u, dz_name = u_name u, dz_location = lastKnownLocation u,
               dz_lastSeenAt =
                 toISOString (case lastCheckInAt u of None \<Rightarrow> now | Some t \<Rightarrow> t)\<rparr>\<rparr>)
    \<and> idCalls st + length (filter (becomesMissing now) (take i (users st)))
        < idCalls (sweepForBrokenStreaks st now)"
proof -
  have b: "becomesMissing now (users st ! i)"
    using assms by (simp add: becomesMissing_def)
  have "users st = take i (users st) @ users st ! i # drop (Suc i) (users st)"
    using assms(1) by (simp add: id_take_nth_drop [symmetric])
  then have "filter (becomesMissing now) (users st)
      = filter (becomesMissing now) (take i (users st))
        @ users st ! i # filter (becomesMissing now) (drop (Suc i) (users st))"
    using b by (metis filter.simps(2) filter_append)
  then have "length (filter (becomesMissing now) (take i (users st)))
      < length (filter (becomesMissing now) (users st))"
    by simp
  then show ?thesis
    using assms b
    by (simp add: sweep_users_nth sweep_idCalls markMissing_record orNow_def)
qed

theorem sweep_marks_missing_witness:
  "0 < length (users (ex_registry ex_user1 0))
   \<and> users (ex_registry ex_user1 0) ! 0 = (''p1'', ex_user1)
   \<and> status ex_user1 \<noteq> Missing
   \<and> isOlderThanYesterdayDayKey (lastCheckInDayKey ex_user1) (Some ex_t3)
   \<and> users (sweepForBrokenStreaks (ex_registry ex_user1 0) ex_t3) ! 0 =
       (''p1'', ex_user1\<lparr>status := Missing, missingSince := Some ex_t0,
          dangerZone := Some
            \<lparr>dz_id = ''zone-0'', dz_type = ''danger-zone'', dz_reason = ''streak-broken'',
             dz_userId = ''p1'', dz_name = ''Ada'', dz_location = Some ex_place,
             dz_lastSeenAt = ''2024-03-01T00:00:00.000Z''\<rparr>\<rparr>)
   \<and> idCalls (ex_registry ex_user1 0) = 0
   \<and> idCalls (sweepForBrokenStreaks (ex_registry ex_user1 0) ex_t3) = 1"
proof -
  have h: "0 < length (users (ex_registry ex_user1 0))"
    "users (ex_registry ex_user1 0) ! 0 = (''p1'', ex_user1)"
    "status ex_user1 \<noteq> Missing"
    "isOlderThanYesterdayDayKey (lastCheckInDayKey ex_user1) (Some ex_t3)"
    by (simp_all add: ex_registry_def ex_user1_def isOlderThanYesterdayDayKey_def truthy_def
        ex_keys)
  note t = sweep_marks_missing [OF h, unfolded ex_sweep1]
  show ?thesis
    unfolding ex_sweep1 using h t
    by (simp add: ex_registry_def ex_user1_def ex_user1_missing_def ex_zone1_def)
qed

text \<open>
  C1, as amended. In every reachable registry a participant who is missing and has no
  last known location carries a danger-zone record whose location is null, and
  \<open>listDangerZones\<close> includes that record. (The sweep builds the record in both branches of
  \<^verbatim>\<open>markMissing\<close>; only a check-in sets \<open>dangerZone\<close> back to null.)
\<close>

theorem missing_without_location_is_listed:
  assumes "reachable st" and "dangerZones st now = (st', zs)"
    and "(k, u) \<in> set (users st')" and "status u = Missing" and "lastKnownLocation u = None"
  shows "\<exists>z. dangerZone u = Some z \<and> dz_location z = None \<and> z \<in> set zs"
proof -
  have "reachable st'" using assms(1,2) by (rule reachable.listed)
  then have "zonesOk st'" by (rule reachable_zonesOk)
  then obtain z where z: "dangerZone u = Some z" "dz_location z = lastKnownLocation u"
    using assms(3,4) by (auto simp: zonesOk_def list_all_iff)
  have "zs = collectZones (users st')"
    using assms(2) by (auto simp: dangerZones_def Let_def)
  then have "z \<in> set zs"
    using collectZones_member [OF assms(3,4) z(1)] by simp
  then show ?thesis using z assms(5) by simp
qed

theorem missing_without_location_is_listed_witness:
  "reachable (ex_registry ex_user0 0)
   \<and> dangerZones (ex_registry ex_user0 0) ex_t3 = (ex_registry ex_user0_missing 1, [ex_zone0])
   \<and> (''p1'', ex_user0_missing) \<in> set (users (ex_registry ex_user0_missing 1))
   \<and> status ex_user0_missing = Missing \<and> lastKnownLocation ex_user0_missing = None
   \<and> (\<exists>z. dangerZone ex_user0_missing = Some z \<and> dz_location z = None \<and> z \<in> set [ex_zone0])"
proof -
  have h: "(''p1'', ex_user0_missing) \<in> set (users (ex_registry ex_user0_missing 1))"
    "status ex_user0_missing = Missing" "lastKnownLocation ex_user0_missing = None"
    by (simp_all add: ex_registry_def ex_user0_missing_def ex_user0_def)
  show ?thesis
    using missing_without_location_is_listed [OF ex_reachable0 ex_zones0 h] h ex_reachable0
      ex_zones0
    by simp
qed

text \<open>
  C1 as stated fails: \<^verbatim>\<open>p1\<close> checks in on 1 March without a location and is swept on
  4 March. The participant is missing, has no last known location, and yet has a record,
  which \<open>listDangerZones\<close> returns.
\<close>

theorem missing_without_location_counterexample:
  "checkIn (createInitialState ex_ids) ex_plain ex_t0 = Inr (ex_registry ex_user0 0, ex_user0)
   \<and> dangerZones (ex_registry ex_user0 0) ex_t3 = (ex_registry ex_user0_missing 1, [ex_zone0])
   \<and> users (ex_registry ex_user0_missing 1) = [(''p1'', ex_user0_missing)]
   \<and> status ex_user0_missing = Missing \<and> lastKnownLocation ex_user0_missing = None
   \<and> dangerZone ex_user0_missing = Some ex_zone0 \<and> dz_userId ex_zone0 = ''p1''"
  unfolding ex_first_plain ex_zones0
  by (simp add: ex_registry_def ex_user0_missing_def ex_user0_def ex_zone0_def)

text \<open>
  C9. A second \<open>getOrCreateUser\<close> for the same id creates no participant: the ids of the
  registry are the same list as after the first call, which added the id only if it was
  not there, and ids never repeat if they did not before. With a non-empty name the second
  call changes the name (cut to 60 characters) and no other field of the participant; with
  an absent or empty name it changes nothing. Other participants and the identifier
  source are untouched.
\<close>

theorem getOrCreateUser_repeat:
  assumes "getOrCreateUser st userId name = Inr (st1, u1)"
    and "getOrCreateUser st1 userId name' = Inr (st2, u2)"
  shows "map fst (users st1) =
      (if userKey userId \<in> set (map fst (users st)) then map fst (users st)
       else map fst (users st) @ [userKey userId])
    \<and> map fst (users st2) = map fst (users st1)
    \<and> (distinct (map fst (users st)) \<longrightarrow> distinct (map fst (users st2)))
    \<and> map_of (users st2) (userKey userId) = Some u2
    \<and> (\<forall>k. k \<noteq> userKey userId \<longrightarrow> map_of (users st2) k = map_of (users st1) k)
    \<and> (\<forall>n. name' = Some n \<and> n \<noteq> [] \<longrightarrow> u2 = u1\<lparr>u_name := take 60 n\<rparr>)
    \<and> (\<not> truthy name' \<longrightarrow> u2 = u1 \<and> st2 = st1)
    \<and> makeId st2 = makeId st1 \<and> idCalls st2 = idCalls st1"
proof -
  have k: "userKey userId \<noteq> []"
    using assms(1) getOrCreateUser_error [of st userId name] by force
  have s1: "map_of (users st1) (userKey userId) = Some u1"
    using assms(1) by (rule getOrCreateUser_stored)
  have keys1: "map fst (users st1) =
      (if userKey userId \<in> set (map fst (users st)) then map fst (users st)
       else map fst (users st) @ [userKey userId])"
  proof (cases "map_of (users st) (userKey userId)")
    case None
    then have "userKey userId \<notin> set (map fst (users st))"
      by (simp add: map_of_eq_None_iff)
    then show ?thesis
      using assms(1) k None by (auto simp: getOrCreateUser_new Let_def update_absent_keys)
  next
    case (Some u0)
    then have "userKey userId \<in> set (map fst (users st))"
      by (metis map_of_eq_None_iff option.distinct(1) set_map)
    then show ?thesis
      using assms(1) k Some
      by (auto simp: getOrCreateUser_existing update_present_keys split: if_splits)
  qed
  have second: "getOrCreateUser st1 userId name' =
      (if truthy name'
       then Inr (st1\<lparr>users := AList.update (userKey userId)
                     (u1\<lparr>u_name := slice0 60 (orDefault name' [])\<rparr>) (users st1)\<rparr>,
                 u1\<lparr>u_name := slice0 60 (orDefault name' [])\<rparr>)
       else Inr (st1, u1))"
    using k s1 by (rule getOrCreateUser_existing)
  have keys2: "map fst (users st2) = map fst (users st1)"
    using assms(2) s1 unfolding second
    by (auto simp: update_present_keys split: if_splits)
  have d: "distinct (map fst (users st2))" if "distinct (map fst (users st))"
    using that unfolding keys2 keys1 by auto
  have s2: "map_of (users st2) (userKey userId) = Some u2"
    using assms(2) by (rule getOrCreateUser_stored)
  have others: "map_of (users st2) k = map_of (users st1) k" if "k \<noteq> userKey userId" for k
    using assms(2) that unfolding second
    by (auto simp: map_of_update_other split: if_splits)
  have renamed: "u2 = u1\<lparr>u_name := take 60 n\<rparr>" if "name' = Some n" "n \<noteq> []" for n
    using assms(2) that unfolding second
    by (simp add: truthy_def orDefault_def slice0_def)
  have same: "u2 = u1 \<and> st2 = st1" if "\<not> truthy name'"
    using assms(2) that unfolding second by simp
  have ids: "makeId st2 = makeId st1 \<and> idCalls st2 = idCalls st1"
    using assms(2) unfolding second by (auto split: if_splits)
  show ?thesis using keys1 keys2 d s2 others renamed same ids by blast
qed

theorem getOrCreateUser_repeat_witness:
  "getOrCreateUser (createInitialState ex_ids) (Some '' p9'') None
     = Inr (\<lparr>users = [(''p9'', ex_newcomer)], makeId = ex_ids, idCalls = 0\<rparr>, ex_newcomer)
   \<and> getOrCreateUser \<lparr>users = [(''p9'', ex_newcomer)], makeId = ex_ids, idCalls = 0\<rparr>
         (Some '' p9'') (Some ''Grace'')
     = Inr (\<lparr>users = [(''p9'', ex_newcomer\<lparr>u_name := ''Grace''\<rparr>)], makeId = ex_ids,
              idCalls = 0\<rparr>,
            ex_newcomer\<lparr>u_name := ''Grace''\<rparr>)
   \<and> userKey (Some '' p9'') = ''p9''
   \<and> map fst (users (createInitialState ex_ids)) = []
   \<and> map_of [(''p9'', ex_newcomer\<lparr>u_name := ''Grace''\<rparr>)] ''p9''
       = Some (ex_newcomer\<lparr>u_name := take 60 ''Grace''\<rparr>)"
proof -
  have a: "getOrCreateUser (createInitialState ex_ids) (Some '' p9'') None
     = Inr (\<lparr>users = [(''p9'', ex_newcomer)], makeId = ex_ids, idCalls = 0\<rparr>, ex_newcomer)"
    by (simp add: engine_defs ex_newcomer_def)
  have b: "getOrCreateUser \<lparr>users = [(''p9'', ex_newcomer)], makeId = ex_ids, idCalls = 0\<rparr>
         (Some '' p9'') (Some ''Grace'')
     = Inr (\<lparr>users = [(''p9'', ex_newcomer\<lparr>u_name := ''Grace''\<rparr>)], makeId = ex_ids,
              idCalls = 0\<rparr>,
            ex_newcomer\<lparr>u_name := ''Grace''\<rparr>)"
    by (simp add: engine_defs)
  have k: "userKey (Some '' p9'') = ''p9''"
    by (simp add: engine_defs)
  show ?thesis
    using getOrCreateUser_repeat [OF a b] a b k
    by (simp add: createInitialState_def)
qed



text \<open>
  C10. A participant checks in with a valid location and then again on the same UTC day
  without one. The second check-in overwrites the entry of that day, at its position, with
  an entry whose location is null, so no entry of that day keeps the location, while
  \<open>lastKnownLocation\<close> still holds the location of the first check-in.
\<close>

theorem same_day_checkin_drops_snapshot:
  assumes "reachable st"
    and "checkIn st p1 now1 = Inr (st1, u1)" and "asLocation (p_location p1) = Some l"
    and "checkIn st1 p2 now2 = Inr (st2, u2)"
    and "userKey (p_userId p2) = userKey (p_userId p1)"
    and "utcDayKey (Some now2) = utcDayKey (Some now1)"
    and "p_location p2 = None"
  shows "lastKnownLocation u1 = Some l \<and> lastKnownLocation u2 = Some l
    \<and> (\<exists>i. findIndex (\<lambda>x. e_dayKey x = utcDayKey (Some now1)) (checkInHistory u1) = Some i
          \<and> e_location (checkInHistory u1 ! i) = Some l
          \<and> checkInHistory u2 = (checkInHistory u1)
               [i := \<lparr>e_dayKey = utcDayKey (Some now1), e_at = toISOString now2,
                      e_location = None, e_note = normalizeCheckInNote (p_note p2)\<rparr>])
    \<and> (\<forall>e \<in> set (checkInHistory u2).
          e_dayKey e = utcDayKey (Some now1) \<longrightarrow> e_location e = None)"
proof -
  define today where "today = utcDayKey (Some now1)"
  from assms(2) obtain sta u0 where
    g1: "getOrCreateUser st (p_userId p1) (p_name p1) = Inr (sta, u0)"
    and u1: "u1 = checkedInUser u0 p1 now1"
    by (rule checkIn_unfold)
  have ok0: "historyOk (checkInHistory u0)"
    using getOrCreateUser_registryOk [OF reachable_registryOk [OF assms(1)] g1] by simp
  have r1: "reachable st1" using assms(1,2) by (rule reachable.checkedIn)
  have r2: "reachable st2" using r1 assms(4) by (rule reachable.checkedIn)
  have loc1: "lastKnownLocation u1 = Some l"
    by (simp add: u1 checkedInUser_location assms(3))
  have h1: "checkInHistory u1 =
      checkInHistory (pushCheckInHistory u0 today now1 (Some l) (normalizeCheckInNote (p_note p1)))"
    by (simp add: u1 checkedInUser_history assms(3) today_def)
  from pushCheckInHistory_entry [OF ok0, of today now1 "Some l" "normalizeCheckInNote (p_note p1)"]
  obtain i where i: "findIndex (\<lambda>x. e_dayKey x = today) (checkInHistory u1) = Some i"
    and e: "e_location (checkInHistory u1 ! i) = Some l"
    unfolding h1 [symmetric] by auto
  have stored1: "map_of (users st1) (userKey (p_userId p2)) = Some u1"
    using checkIn_stored [OF assms(2)] assms(5) by simp
  then have "(userKey (p_userId p2), u1) \<in> set (users st1)" by (rule map_of_SomeD)
  then have ok1: "historyOk (checkInHistory u1)"
    using reachable_registryOk [OF r1] by (auto simp: registryOk_def list_all_iff)
  from assms(4) obtain stb u0' where
    g2: "getOrCreateUser st1 (p_userId p2) (p_name p2) = Inr (stb, u0')"
    and u2: "u2 = checkedInUser u0' p2 now2"
    by (rule checkIn_unfold)
  have f2: "checkInHistory u0' = checkInHistory u1" "lastKnownLocation u0' = lastKnownLocation u1"
    using getOrCreateUser_fields [OF g2] stored1 by simp_all
  have none: "asLocation (p_location p2) = None"
    using assms(7) by (simp add: asLocation_def)
  have loc2: "lastKnownLocation u2 = Some l"
    by (simp add: u2 checkedInUser_location none f2 loc1)
  have i': "findIndex (\<lambda>x. e_dayKey x = today) (checkInHistory u0') = Some i"
    using i f2 by simp
  have l': "length (checkInHistory u0') \<le> 21"
    using ok1 f2 by (simp add: historyOk_def)
  have h2: "checkInHistory u2 = (checkInHistory u1)
      [i := \<lparr>e_dayKey = today, e_at = toISOString now2, e_location = None,
             e_note = normalizeCheckInNote (p_note p2)\<rparr>]"
    unfolding u2 checkedInUser_history none assms(6) today_def [symmetric]
    by (simp add: pushCheckInHistory_replace [OF i' l'] f2)
  have stored2: "(userKey (p_userId p2), u2) \<in> set (users st2)"
    using checkIn_stored [OF assms(4)] by (rule map_of_SomeD)
  then have d2: "distinct (map e_dayKey (checkInHistory u2))"
    using reachable_registryOk [OF r2] by (auto simp: registryOk_def list_all_iff historyOk_def)
  have il: "i < length (checkInHistory u1)" using findIndex_Some [OF i] by simp
  have only: "e_location e = None" if "e \<in> set (checkInHistory u2)" "e_dayKey e = today" for e
  proof -
    from that(1) obtain j where j: "j < length (checkInHistory u2)" "checkInHistory u2 ! j = e"
      by (auto simp: in_set_conv_nth)
    have len: "length (checkInHistory u2) = length (checkInHistory u1)" by (simp add: h2)
    have "e_dayKey (checkInHistory u2 ! i) = today" using il by (simp add: h2)
    then have "map e_dayKey (checkInHistory u2) ! j = map e_dayKey (checkInHistory u2) ! i"
      using j il len that(2) by simp
    moreover have "j < length (map e_dayKey (checkInHistory u2))"
      "i < length (map e_dayKey (checkInHistory u2))"
      using j il len by simp_all
    ultimately have "j = i"
      using d2 by (simp only: nth_eq_iff_index_eq)
    then have "e = checkInHistory u2 ! i" using j by simp
    then show ?thesis using il by (simp add: h2)
  qed
  show ?thesis
    using loc1 loc2 i e h2 only unfolding today_def by blast
qed

theorem same_day_checkin_drops_snapshot_witness:
  "reachable (createInitialState ex_ids)
   \<and> checkIn (createInitialState ex_ids) ex_located ex_t0 = Inr (ex_registry ex_user1 0, ex_user1)
   \<and> asLocation (p_location ex_located) = Some ex_place
   \<and> checkIn (ex_registry ex_user1 0) ex_plain ex_hour
       = Inr (ex_registry ex_user1_again 0, ex_user1_again)
   \<and> userKey (p_userId ex_plain) = userKey (p_userId ex_located)
   \<and> utcDayKey (Some ex_hour) = utcDayKey (Some ex_t0) \<and> p_location ex_plain = None
   \<and> lastKnownLocation ex_user1_again = Some ex_place
   \<and> map e_location (checkInHistory ex_user1) = [Some ex_place]
   \<and> map e_location (checkInHistory ex_user1_again) = [None]"
proof -
  have h: "asLocation (p_location ex_located) = Some ex_place"
    "userKey (p_userId ex_plain) = userKey (p_userId ex_located)"
    "utcDayKey (Some ex_hour) = utcDayKey (Some ex_t0)" "p_location ex_plain = None"
    by (simp_all add: ex_key ex_keys)
      (simp_all add: ex_located_def ex_plain_def ex_place_def asLocation_def)
  have m: "map e_location (checkInHistory ex_user1) = [Some ex_place]"
    "map e_location (checkInHistory ex_user1_again) = [None]"
    by (simp_all add: ex_user1_def ex_user1_again_def)
  show ?thesis
    using same_day_checkin_drops_snapshot
      [OF reachable.initial ex_first_located h(1) ex_again h(2,3,4)]
      h m ex_first_located ex_again reachable.initial [of ex_ids]
    by simp
qed

end
